theory Spec2Isabelle
  imports Complex_Main "HOL-Library.Multiset"
begin

section \<open>Values read from the platform's responses\<close>

text \<open>
  The source probes response objects defensively (\<^verbatim>\<open>getattr(obj, name, default)\<close>,
  \<^verbatim>\<open>hasattr\<close>, \<^verbatim>\<open>x or 0\<close>). A probed attribute is an \<open>option\<close>: \<open>None\<close> stands
  for an attribute that is missing. A star quantity is either a plain integer, Python's
  \<^verbatim>\<open>None\<close>, or an object with an \<^verbatim>\<open>amount\<close> and (optionally) \<^verbatim>\<open>nanos\<close>; for the
  latter two fields \<open>None\<close> stands for both a missing attribute and the value
  \<^verbatim>\<open>None\<close>, which \<^verbatim>\<open>x or 0\<close> treats alike.

  Quantities are exact rationals: the source computes \<^verbatim>\<open>amount + nanos / 1_000_000_000\<close>
  in binary floating point, whose rounding is not part of this model.
\<close>

datatype pyval = PyNone | PyInt int | StarsAmount "int option" "int option"

fun or0 :: "int option \<Rightarrow> int" where
  "or0 None = 0"
| "or0 (Some n) = n"

fun stars_value :: "pyval \<Rightarrow> rat" where
  "stars_value (StarsAmount amount nanos) = of_int (or0 amount) + of_int (or0 nanos) / 1000000000"
| "stars_value PyNone = 0"
| "stars_value (PyInt n) = of_int n"

record gift =
  gift_id :: int
  limited :: "bool option"
  sold_out :: "bool option"
  availability_remains :: "int option"
  stars :: "pyval option"

record RunConfig =
  session :: string
  recipient :: string
  max_price_stars :: int
  poll_interval :: int

text \<open>\<^verbatim>\<open>getattr(g, "limited", False)\<close> used as a condition: a missing flag is false.\<close>

fun truthy :: "bool option \<Rightarrow> bool" where
  "truthy None = False"
| "truthy (Some b) = b"

text \<open>\<^verbatim>\<open>stars_value(getattr(g, "stars", 0))\<close>\<close>

definition gift_price :: "gift \<Rightarrow> rat" where
  "gift_price g = stars_value (case stars g of None \<Rightarrow> PyInt 0 | Some v \<Rightarrow> v)"

text \<open>\<^verbatim>\<open>remains is None or remains > 0\<close>\<close>

fun remains_ok :: "int option \<Rightarrow> bool" where
  "remains_ok None = True"
| "remains_ok (Some r) = (0 < r)"

text \<open>The condition of the \<^verbatim>\<open>if\<close> inside the candidate loop of \<^verbatim>\<open>GiftBuyer.run\<close>.\<close>

definition accepts :: "RunConfig \<Rightarrow> gift \<Rightarrow> bool" where
  "accepts cfg g =
     (truthy (limited g) \<and> \<not> truthy (sold_out g) \<and> remains_ok (availability_remains g)
      \<and> gift_price g \<le> of_int (max_price_stars cfg))"

text \<open>
  The loop \<^verbatim>\<open>for g in gifts: ... candidates.append((price, g))\<close>, with the list built so
  far as an accumulator.
\<close>

fun collect :: "RunConfig \<Rightarrow> gift list \<Rightarrow> (rat \<times> gift) list \<Rightarrow> (rat \<times> gift) list" where
  "collect cfg [] acc = acc"
| "collect cfg (g # gs) acc =
     (if accepts cfg g then collect cfg gs (acc @ [(gift_price g, g)]) else collect cfg gs acc)"

text \<open>
  \<^verbatim>\<open>candidates.sort(key=lambda x: x[0])\<close>: Python's list sort is stable, as is
  \<^const>\<open>sort_key\<close>, and a stable sort has only one possible result.
\<close>

definition candidates_of :: "RunConfig \<Rightarrow> gift list \<Rightarrow> (rat \<times> gift) list" where
  "candidates_of cfg gifts = sort_key fst (collect cfg gifts [])"

subsection \<open>The eligibility predicate as the specification words it\<close>

text \<open>
  An offer of the specification: identifier, price, limited flag, sold-out flag and an
  optional count of remaining items.
\<close>

record offer =
  offer_id :: int
  price :: rat
  is_limited :: bool
  is_sold_out :: bool
  remaining :: "int option"

definition offer_of :: "gift \<Rightarrow> offer" where
  "offer_of g = \<lparr>offer_id = gift_id g, price = gift_price g, is_limited = truthy (limited g),
     is_sold_out = truthy (sold_out g), remaining = availability_remains g\<rparr>"

text \<open>
  \<^verbatim>\<open>limited == true AND sold_out == false AND (remaining is absent OR remaining > 0)
  AND price <= ceiling\<close>
\<close>

definition spec_eligible :: "int \<Rightarrow> offer \<Rightarrow> bool" where
  "spec_eligible cap x =
     (is_limited x = True \<and> is_sold_out x = False
      \<and> (remaining x = None \<or> (\<exists>r. remaining x = Some r \<and> 0 < r))
      \<and> price x \<le> of_int cap)"

section \<open>The platform client and the control surface as an environment\<close>

text \<open>
  \<^verbatim>\<open>GiftBuyer.run\<close> is sequential: what the outside world does to it is the sequence of
  answers to its awaited calls and the moment the stop event gets set. The environment is
  therefore a script of answers, consumed in call order, each with the time its call
  takes; a logical clock in seconds; and the time at which the callback scheduled by
  \<^verbatim>\<open>GiftBuyer.stop\<close> sets the event (\<open>None\<close>: never). The event loop runs callbacks
  only while the coroutine is suspended, so the flag changes only across an await, which
  is where the clock advances. An exhausted script is a platform that never answers.

  Responses are duck-typed objects: the source reads them with \<^verbatim>\<open>getattr\<close> and defaults and
  with \<^verbatim>\<open>isinstance\<close>, so every call accepts every response.
\<close>

datatype exn = AuthKeyUnregisteredError | RuntimeError | OtherException string

datatype response =
    Raises exn
  | Connected
  | StarsStatus "pyval option"
  | InputPeer int
  | StarGiftsNotModified
  | StarGifts int "gift list"
  | PaymentFormStarGift int
  | PaymentFormStars int
  | PaymentFormOther
  | PaymentResult

datatype request =
    OpenClient string
  | GetStarsStatusRequest
  | GetInputEntity string
  | GetStarGiftsRequest int
  | GetPaymentFormRequest response int
  | SendStarsFormRequest int response int

datatype logline =
    LogBalance rat
  | LogAuthNeeded
  | LogAuthDone
  | LogRecipient string
  | LogGiftsError exn
  | LogSkip rat rat
  | LogFormError exn
  | LogUnexpectedForm response
  | LogPayError exn
  | LogBought int rat

datatype event = Called request response | Logged logline | Slept nat

record world =
  script :: "(nat \<times> response) list"
  clock :: nat
  stop_at :: "nat option"

record credentials =
  api_id :: int
  api_hash :: string

datatype outcome = Purchased | Cancelled | LoginRequired | Raised exn | Starved

text \<open>How the candidate loop is left: by falling through (or \<^verbatim>\<open>break\<close>), or by ending the run.\<close>

datatype leave = Fallthrough | Return outcome

record 'a result =
  events :: "event list"
  ending :: 'a
  final :: world

definition finish :: "'a \<Rightarrow> world \<Rightarrow> 'a result" where
  "finish x w = \<lparr>events = [], ending = x, final = w\<rparr>"

definition emit :: "event list \<Rightarrow> 'a result \<Rightarrow> 'a result" where
  "emit es r = r\<lparr>events := es @ events r\<rparr>"

text \<open>\<^verbatim>\<open>self._stop_event.is_set()\<close>\<close>

definition is_set :: "world \<Rightarrow> bool" where
  "is_set w = (case stop_at w of None \<Rightarrow> False | Some t \<Rightarrow> t \<le> clock w)"

text \<open>
  \<^verbatim>\<open>await asyncio.sleep(d)\<close>: returns after \<open>d\<close> seconds. The stop event is not among its
  arguments, and \<^verbatim>\<open>stop\<close> does not cancel the task.
\<close>

definition sleep :: "nat \<Rightarrow> world \<Rightarrow> world" where
  "sleep d w = w\<lparr>clock := clock w + d\<rparr>"

text \<open>\<^verbatim>\<open>await client(...)\<close>: the next answer of the script, after the time it takes.\<close>

definition call :: "world \<Rightarrow> (response \<times> world) option" where
  "call w = (case script w of [] \<Rightarrow> None
             | (d, r) # rest \<Rightarrow> Some (r, w\<lparr>script := rest, clock := clock w + d\<rparr>))"

fun raised :: "response \<Rightarrow> exn option" where
  "raised (Raises e) = Some e"
| "raised _ = None"

text \<open>\<^verbatim>\<open>getattr(status, "balance", 0)\<close>\<close>

fun attr_balance :: "response \<Rightarrow> pyval" where
  "attr_balance (StarsStatus (Some v)) = v"
| "attr_balance _ = PyInt 0"

text \<open>\<^verbatim>\<open>getattr(gifts_resp, "hash", 0) or 0\<close>\<close>

fun attr_hash :: "response \<Rightarrow> int" where
  "attr_hash (StarGifts h gs) = h"
| "attr_hash _ = 0"

text \<open>\<^verbatim>\<open>getattr(gifts_resp, "gifts", [])\<close>\<close>

fun attr_gifts :: "response \<Rightarrow> gift list" where
  "attr_gifts (StarGifts h gs) = gs"
| "attr_gifts _ = []"

text \<open>
  \<^verbatim>\<open>isinstance(form, (PaymentFormStarGift, PaymentFormStars))\<close>, giving \<^verbatim>\<open>form.form_id\<close>.
\<close>

fun payment_form :: "response \<Rightarrow> int option" where
  "payment_form (PaymentFormStarGift fid) = Some fid"
| "payment_form (PaymentFormStars fid) = Some fid"
| "payment_form _ = None"

text \<open>\<^verbatim>\<open>if balance < price\<close>: the candidate is skipped.\<close>

definition insufficient :: "rat \<Rightarrow> rat \<Rightarrow> bool" where
  "insufficient balance p = (balance < p)"

section \<open>The acquisition loop\<close>

text \<open>The loop \<^verbatim>\<open>for price, gift in candidates\<close> of \<^verbatim>\<open>GiftBuyer.run\<close>.\<close>

fun buy_loop :: "RunConfig \<Rightarrow> response \<Rightarrow> (rat \<times> gift) list \<Rightarrow> world \<Rightarrow> leave result" where
  "buy_loop cfg to_peer [] w = finish Fallthrough w"
| "buy_loop cfg to_peer ((p, g) # rest) w =
    (if is_set w then finish Fallthrough w
     else case call w of
       None \<Rightarrow> finish (Return Starved) w
     | Some (status, w1) \<Rightarrow> emit [Called GetStarsStatusRequest status]
        (case raised status of
           Some e \<Rightarrow> finish (Return (Raised e)) w1
         | None \<Rightarrow>
            let balance = stars_value (attr_balance status) in
            if insufficient balance p
            then emit [Logged (LogSkip balance p)] (buy_loop cfg to_peer rest w1)
            else (case call w1 of
               None \<Rightarrow> finish (Return Starved) w1
             | Some (form, w2) \<Rightarrow> emit [Called (GetPaymentFormRequest to_peer (gift_id g)) form]
                (case raised form of
                   Some e \<Rightarrow> emit [Logged (LogFormError e)] (buy_loop cfg to_peer rest w2)
                 | None \<Rightarrow>
                    (case payment_form form of
                       None \<Rightarrow> emit [Logged (LogUnexpectedForm form)] (buy_loop cfg to_peer rest w2)
                     | Some fid \<Rightarrow>
                        (case call w2 of
                           None \<Rightarrow> finish (Return Starved) w2
                         | Some (res, w3) \<Rightarrow>
                            emit [Called (SendStarsFormRequest fid to_peer (gift_id g)) res]
                              (case raised res of
                                 Some e \<Rightarrow> emit [Logged (LogPayError e)] (buy_loop cfg to_peer rest w3)
                               | None \<Rightarrow> emit [Logged (LogBought (gift_id g) p)]
                                           (finish (Return Purchased) w3))))))))"

lemma call_script: "call w = Some (r, w') \<Longrightarrow> length (script w') < length (script w)"
  by (auto simp: call_def split: list.splits)

lemma buy_loop_script: "length (script (final (buy_loop cfg to_peer cs w))) \<le> length (script w)"
proof (induction cs arbitrary: w)
  case Nil
  then show ?case by (simp add: finish_def)
next
  case (Cons c cs)
  obtain p g where c: "c = (p, g)" by (cases c)
  show ?case
    unfolding c
    by (auto simp: finish_def emit_def Let_def split: option.splits
        dest!: call_script intro: le_trans [OF Cons.IH])
qed

text \<open>The loop \<^verbatim>\<open>while not self._stop_event.is_set()\<close>, with \<^verbatim>\<open>last_hash\<close> as an argument.\<close>

function poll_loop :: "RunConfig \<Rightarrow> response \<Rightarrow> int \<Rightarrow> world \<Rightarrow> outcome result" where
  "poll_loop cfg to_peer last_hash w =
    (if is_set w then finish Cancelled w
     else case call w of
       None \<Rightarrow> finish Starved w
     | Some (gifts_resp, w1) \<Rightarrow> emit [Called (GetStarGiftsRequest last_hash) gifts_resp]
        (case raised gifts_resp of
           Some e \<Rightarrow>
             emit [Logged (LogGiftsError e), Slept (nat (poll_interval cfg))]
               (poll_loop cfg to_peer last_hash (sleep (nat (poll_interval cfg)) w1))
         | None \<Rightarrow>
            if gifts_resp = StarGiftsNotModified
            then emit [Slept (nat (poll_interval cfg))]
                   (poll_loop cfg to_peer last_hash (sleep (nat (poll_interval cfg)) w1))
            else if attr_gifts gifts_resp = []
            then emit [Slept (nat (poll_interval cfg))]
                   (poll_loop cfg to_peer (attr_hash gifts_resp) (sleep (nat (poll_interval cfg)) w1))
            else
              (let tried = buy_loop cfg to_peer (candidates_of cfg (attr_gifts gifts_resp)) w1 in
               case ending tried of
                 Return out \<Rightarrow> \<lparr>events = events tried, ending = out, final = final tried\<rparr>
               | Fallthrough \<Rightarrow>
                   emit (events tried @ [Slept (nat (poll_interval cfg))])
                     (poll_loop cfg to_peer (attr_hash gifts_resp)
                        (sleep (nat (poll_interval cfg)) (final tried))))))"
  by pat_completeness auto
termination
  by (relation "measure (\<lambda>(cfg, to_peer, last_hash, w). length (script w))")
    (auto simp: sleep_def dest!: call_script intro: le_less_trans [OF buy_loop_script])

text \<open>
  \<^verbatim>\<open>GiftBuyer.run\<close>, with the process-wide credentials as a parameter. Entering
  \<^verbatim>\<open>async with TelegramClient(...)\<close> is a call like the others; leaving it (the disconnect)
  is not modelled. An exception that no handler of the source catches ends the run as
  \<open>Raised\<close>.
\<close>

definition run :: "credentials \<Rightarrow> RunConfig \<Rightarrow> world \<Rightarrow> outcome result" where
  "run api cfg w =
    (if api_id api = 0 \<or> api_hash api = [] then finish (Raised RuntimeError) w
     else case call w of
       None \<Rightarrow> finish Starved w
     | Some (conn, w1) \<Rightarrow> emit [Called (OpenClient (session cfg)) conn]
        (case raised conn of
           Some e \<Rightarrow> finish (Raised e) w1
         | None \<Rightarrow>
            (case call w1 of
               None \<Rightarrow> finish Starved w1
             | Some (status, w2) \<Rightarrow> emit [Called GetStarsStatusRequest status]
                (case raised status of
                   Some e \<Rightarrow>
                     if e = AuthKeyUnregisteredError
                     then emit [Logged LogAuthNeeded]
                       (case call w2 of
                          None \<Rightarrow> finish Starved w2
                        | Some (conn2, w3) \<Rightarrow> emit [Called (OpenClient (session cfg)) conn2]
                           (case raised conn2 of
                              Some e2 \<Rightarrow> finish (Raised e2) w3
                            | None \<Rightarrow> emit [Logged LogAuthDone] (finish LoginRequired w3)))
                     else finish (Raised e) w2
                 | None \<Rightarrow>
                     emit [Logged (LogBalance (stars_value (attr_balance status)))]
                       (case call w2 of
                          None \<Rightarrow> finish Starved w2
                        | Some (to_peer, w3) \<Rightarrow> emit [Called (GetInputEntity (recipient cfg)) to_peer]
                           (case raised to_peer of
                              Some e \<Rightarrow> finish (Raised e) w3
                            | None \<Rightarrow> emit [Logged (LogRecipient (recipient cfg))]
                                        (poll_loop cfg to_peer 0 w3)))))))"

declare poll_loop.simps [simp del]

section \<open>Properties of event sequences\<close>

text \<open>
  Events are listed in the order they happen. The predicates below read such a list from
  left to right; each is used to state one property of every run.
\<close>

text \<open>
  A payment submission that returned, and the log line that must follow it.
\<close>

fun bought :: "event \<Rightarrow> bool" where
  "bought (Called (SendStarsFormRequest fid peer gid) res) = (raised res = None)"
| "bought _ = False"

fun bought_log :: "int \<Rightarrow> event list \<Rightarrow> bool" where
  "bought_log gid [Logged (LogBought gid' p)] = (gid' = gid)"
| "bought_log gid _ = False"

fun sealed :: "event list \<Rightarrow> bool" where
  "sealed [] = True"
| "sealed (Called (SendStarsFormRequest fid peer gid) res # es) =
     (if raised res = None then bought_log gid es else sealed es)"
| "sealed (e # es) = sealed es"

text \<open>
  Catalog requests, the token of the next one, and a wait followed by a request with a given token.
\<close>

fun is_poll :: "event \<Rightarrow> bool" where
  "is_poll (Called (GetStarGiftsRequest h) r) = True"
| "is_poll _ = False"

fun next_poll :: "event list \<Rightarrow> int option" where
  "next_poll [] = None"
| "next_poll (Called (GetStarGiftsRequest h) r # es) = Some h"
| "next_poll (e # es) = next_poll es"

fun waits_then_repolls :: "nat \<Rightarrow> int \<Rightarrow> event list \<Rightarrow> bool" where
  "waits_then_repolls d h [Slept d'] = (d' = d)"
| "waits_then_repolls d h (Slept d' # Called (GetStarGiftsRequest h') r # es) = (d' = d \<and> h' = h)"
| "waits_then_repolls d h es = False"

fun unmoved :: "nat \<Rightarrow> event list \<Rightarrow> bool" where
  "unmoved d [] = True"
| "unmoved d (Called (GetStarGiftsRequest h) StarGiftsNotModified # es) =
     (waits_then_repolls d h es \<and> unmoved d es)"
| "unmoved d (e # es) = unmoved d es"

fun threaded :: "nat \<Rightarrow> event list \<Rightarrow> bool" where
  "threaded d [] = True"
| "threaded d (Called (GetStarGiftsRequest h) r # es) =
     ((raised r = None \<and> r \<noteq> StarGiftsNotModified \<longrightarrow>
         (next_poll es = None \<or> next_poll es = Some (attr_hash r))
         \<and> (attr_gifts r = [] \<longrightarrow> waits_then_repolls d (attr_hash r) es))
      \<and> threaded d es)"
| "threaded d (e # es) = threaded d es"

text \<open>
  The balance a purchase decision may rest on: the one returned by the call that is the
  event just before it. \<open>batch_of\<close> follows the candidates of the latest catalog answer.
\<close>

fun fresh_balance :: "event option \<Rightarrow> rat option" where
  "fresh_balance (Some (Called GetStarsStatusRequest st)) =
     (if raised st = None then Some (stars_value (attr_balance st)) else None)"
| "fresh_balance _ = None"

fun gate_ok :: "(rat \<times> gift) list \<Rightarrow> event option \<Rightarrow> event \<Rightarrow> bool" where
  "gate_ok batch prev (Called (GetPaymentFormRequest to_peer gid) form) =
     (case fresh_balance prev of
        None \<Rightarrow> False
      | Some b \<Rightarrow> list_ex (\<lambda>c. gift_id (snd c) = gid \<and> fst c \<le> b) batch)"
| "gate_ok batch prev (Logged (LogSkip b p)) = (fresh_balance prev = Some b \<and> b < p)"
| "gate_ok batch prev e = True"

fun batch_of :: "RunConfig \<Rightarrow> event \<Rightarrow> (rat \<times> gift) list \<Rightarrow> (rat \<times> gift) list" where
  "batch_of cfg (Called (GetStarGiftsRequest h) r) batch = candidates_of cfg (attr_gifts r)"
| "batch_of cfg e batch = batch"

fun last_event :: "event option \<Rightarrow> event list \<Rightarrow> event option" where
  "last_event prev [] = prev"
| "last_event prev (e # es) = last_event (Some e) es"

fun gated :: "RunConfig \<Rightarrow> (rat \<times> gift) list \<Rightarrow> event option \<Rightarrow> event list \<Rightarrow> bool" where
  "gated cfg batch prev [] = True"
| "gated cfg batch prev (e # es) = (gate_ok batch prev e \<and> gated cfg (batch_of cfg e batch) (Some e) es)"

text \<open>
  The events before the polling loop, and the five that precede it when it is reached.
\<close>

fun preparatory :: "event \<Rightarrow> bool" where
  "preparatory (Called (OpenClient s) r) = True"
| "preparatory (Called GetStarsStatusRequest r) = True"
| "preparatory (Called (GetInputEntity s) r) = True"
| "preparatory (Logged LogAuthNeeded) = True"
| "preparatory (Logged LogAuthDone) = True"
| "preparatory (Logged (LogBalance b)) = True"
| "preparatory (Logged (LogRecipient s)) = True"
| "preparatory _ = False"

fun purchase_step :: "event \<Rightarrow> bool" where
  "purchase_step (Called (GetPaymentFormRequest to_peer gid) r) = True"
| "purchase_step (Called (SendStarsFormRequest fid to_peer gid) r) = True"
| "purchase_step _ = False"

definition preamble :: "RunConfig \<Rightarrow> response \<Rightarrow> response \<Rightarrow> response \<Rightarrow> event list" where
  "preamble cfg conn st to_peer =
     [Called (OpenClient (session cfg)) conn, Called GetStarsStatusRequest st,
      Logged (LogBalance (stars_value (attr_balance st))),
      Called (GetInputEntity (recipient cfg)) to_peer, Logged (LogRecipient (recipient cfg))]"

section \<open>Sample inputs\<close>

definition demo_cfg :: RunConfig where
  "demo_cfg = \<lparr>session = ''tg_gifts.session'', recipient = ''me'', max_price_stars = 500, poll_interval = 15\<rparr>"

definition demo_api :: credentials where
  "demo_api = \<lparr>api_id = 12345, api_hash = ''0123abcd''\<rparr>"

definition demo_gift :: "int \<Rightarrow> pyval option \<Rightarrow> gift" where
  "demo_gift i v = \<lparr>gift_id = i, limited = Some True, sold_out = Some False,
     availability_remains = Some 10, stars = v\<rparr>"

definition demo_balance :: "int \<Rightarrow> response" where
  "demo_balance n = StarsStatus (Some (StarsAmount (Some n) (Some 0)))"

definition demo_world :: "response list \<Rightarrow> nat option \<Rightarrow> world" where
  "demo_world rs t = \<lparr>script = map (Pair 0) ([Connected, demo_balance 250, InputPeer 7] @ rs),
     clock = 0, stop_at = t\<rparr>"

section \<open>Offer evaluation\<close>

lemma accepts_spec: "accepts cfg g = spec_eligible (max_price_stars cfg) (offer_of g)"
  by (cases "availability_remains g") (auto simp: accepts_def spec_eligible_def offer_of_def)

lemma collect_eq:
  "collect cfg gs acc = acc @ map (\<lambda>g. (gift_price g, g)) (filter (accepts cfg) gs)"
  by (induction gs arbitrary: acc) auto

lemma candidates_sorted: "sorted (map fst (candidates_of cfg gifts))"
  by (simp add: candidates_of_def)

lemma candidates_stable:
  "filter (\<lambda>c. fst c = p) (candidates_of cfg gifts)
     = map (\<lambda>g. (gift_price g, g)) (filter (\<lambda>g. accepts cfg g \<and> gift_price g = p) gifts)"
  by (simp add: candidates_of_def sort_key_stable collect_eq filter_map o_def conj_commute)

lemma candidates_mset:
  "mset (candidates_of cfg gifts) = mset (map (\<lambda>g. (gift_price g, g)) (filter (accepts cfg) gifts))"
  by (simp add: candidates_of_def collect_eq)


lemma events_emit [simp]: "events (emit es r) = es @ events r"
  by (simp add: emit_def)

lemma ending_emit [simp]: "ending (emit es r) = ending r"
  by (simp add: emit_def)

lemma final_emit [simp]: "final (emit es r) = final r"
  by (simp add: emit_def)

lemma finish_sel [simp]: "events (finish x w) = []" "ending (finish x w) = x" "final (finish x w) = w"
  by (simp_all add: finish_def)



lemma candidates_set:
  "set (candidates_of cfg gifts) = (\<lambda>g. (gift_price g, g)) ` {g \<in> set gifts. accepts cfg g}"
  by (simp add: candidates_of_def collect_eq)

lemma sorted_hd_min:
  assumes "sorted (map f xs)" "x \<in> set xs"
  shows "f (hd xs) \<le> f x"
  using assms by (cases xs) auto

lemma hd_filter_same:
  assumes "xs \<noteq> []" "P (hd xs)"
  shows "hd (filter P xs) = hd xs"
  using assms by (cases xs) auto




section \<open>One iteration of the polling loop\<close>

lemma poll_stopped: "is_set w \<Longrightarrow> poll_loop cfg to_peer h w = finish Cancelled w"
  by (subst poll_loop.simps) simp

lemma poll_starved: "\<not> is_set w \<Longrightarrow> call w = None \<Longrightarrow> poll_loop cfg to_peer h w = finish Starved w"
  by (subst poll_loop.simps) simp

lemma poll_failed:
  "\<not> is_set w \<Longrightarrow> call w = Some (r, w1) \<Longrightarrow> raised r = Some e \<Longrightarrow>
   poll_loop cfg to_peer h w =
     emit [Called (GetStarGiftsRequest h) r, Logged (LogGiftsError e), Slept (nat (poll_interval cfg))]
       (poll_loop cfg to_peer h (sleep (nat (poll_interval cfg)) w1))"
  by (subst poll_loop.simps) (simp add: emit_def)

lemma poll_not_modified:
  "\<not> is_set w \<Longrightarrow> call w = Some (StarGiftsNotModified, w1) \<Longrightarrow>
   poll_loop cfg to_peer h w =
     emit [Called (GetStarGiftsRequest h) StarGiftsNotModified, Slept (nat (poll_interval cfg))]
       (poll_loop cfg to_peer h (sleep (nat (poll_interval cfg)) w1))"
  by (subst poll_loop.simps) (simp add: emit_def)

lemma poll_empty:
  "\<not> is_set w \<Longrightarrow> call w = Some (r, w1) \<Longrightarrow> raised r = None \<Longrightarrow> r \<noteq> StarGiftsNotModified \<Longrightarrow>
   attr_gifts r = [] \<Longrightarrow>
   poll_loop cfg to_peer h w =
     emit [Called (GetStarGiftsRequest h) r, Slept (nat (poll_interval cfg))]
       (poll_loop cfg to_peer (attr_hash r) (sleep (nat (poll_interval cfg)) w1))"
  by (subst poll_loop.simps) (simp add: emit_def)

lemma poll_returned:
  "\<not> is_set w \<Longrightarrow> call w = Some (r, w1) \<Longrightarrow> raised r = None \<Longrightarrow> r \<noteq> StarGiftsNotModified \<Longrightarrow>
   attr_gifts r \<noteq> [] \<Longrightarrow>
   ending (buy_loop cfg to_peer (candidates_of cfg (attr_gifts r)) w1) = Return out \<Longrightarrow>
   poll_loop cfg to_peer h w =
     \<lparr>events = Called (GetStarGiftsRequest h) r
                # events (buy_loop cfg to_peer (candidates_of cfg (attr_gifts r)) w1),
      ending = out,
      final = final (buy_loop cfg to_peer (candidates_of cfg (attr_gifts r)) w1)\<rparr>"
  by (subst poll_loop.simps) (simp add: emit_def Let_def)

lemma poll_fallthrough:
  "\<not> is_set w \<Longrightarrow> call w = Some (r, w1) \<Longrightarrow> raised r = None \<Longrightarrow> r \<noteq> StarGiftsNotModified \<Longrightarrow>
   attr_gifts r \<noteq> [] \<Longrightarrow>
   ending (buy_loop cfg to_peer (candidates_of cfg (attr_gifts r)) w1) = Fallthrough \<Longrightarrow>
   poll_loop cfg to_peer h w =
     emit (Called (GetStarGiftsRequest h) r
             # events (buy_loop cfg to_peer (candidates_of cfg (attr_gifts r)) w1)
             @ [Slept (nat (poll_interval cfg))])
       (poll_loop cfg to_peer (attr_hash r)
          (sleep (nat (poll_interval cfg))
             (final (buy_loop cfg to_peer (candidates_of cfg (attr_gifts r)) w1))))"
  by (subst poll_loop.simps) (simp add: emit_def Let_def)

lemma poll_loop_induct [case_names stopped starved failed not_modified empty returned fallthrough]:
  assumes stopped: "\<And>h w. is_set w \<Longrightarrow> P h w"
    and starved: "\<And>h w. \<not> is_set w \<Longrightarrow> call w = None \<Longrightarrow> P h w"
    and failed: "\<And>h w r w1 e. \<not> is_set w \<Longrightarrow> call w = Some (r, w1) \<Longrightarrow> raised r = Some e \<Longrightarrow>
        P h (sleep (nat (poll_interval cfg)) w1) \<Longrightarrow> P h w"
    and not_modified: "\<And>h w w1. \<not> is_set w \<Longrightarrow> call w = Some (StarGiftsNotModified, w1) \<Longrightarrow>
        P h (sleep (nat (poll_interval cfg)) w1) \<Longrightarrow> P h w"
    and empty: "\<And>h w r w1. \<not> is_set w \<Longrightarrow> call w = Some (r, w1) \<Longrightarrow> raised r = None \<Longrightarrow>
        r \<noteq> StarGiftsNotModified \<Longrightarrow> attr_gifts r = [] \<Longrightarrow>
        P (attr_hash r) (sleep (nat (poll_interval cfg)) w1) \<Longrightarrow> P h w"
    and returned: "\<And>h w r w1 out. \<not> is_set w \<Longrightarrow> call w = Some (r, w1) \<Longrightarrow> raised r = None \<Longrightarrow>
        r \<noteq> StarGiftsNotModified \<Longrightarrow> attr_gifts r \<noteq> [] \<Longrightarrow>
        ending (buy_loop cfg to_peer (candidates_of cfg (attr_gifts r)) w1) = Return out \<Longrightarrow> P h w"
    and fallthrough: "\<And>h w r w1. \<not> is_set w \<Longrightarrow> call w = Some (r, w1) \<Longrightarrow> raised r = None \<Longrightarrow>
        r \<noteq> StarGiftsNotModified \<Longrightarrow> attr_gifts r \<noteq> [] \<Longrightarrow>
        ending (buy_loop cfg to_peer (candidates_of cfg (attr_gifts r)) w1) = Fallthrough \<Longrightarrow>
        P (attr_hash r) (sleep (nat (poll_interval cfg))
             (final (buy_loop cfg to_peer (candidates_of cfg (attr_gifts r)) w1))) \<Longrightarrow> P h w"
  shows "P h w"
proof (induction "length (script w)" arbitrary: h w rule: less_induct)
  case less
  note IH = less.hyps
  show ?case
  proof (cases "is_set w")
    case True
    then show ?thesis by (rule stopped)
  next
    case run: False
    show ?thesis
    proof (cases "call w")
      case None
      with run show ?thesis by (rule starved)
    next
      case (Some a)
      obtain r w1 where a: "a = (r, w1)" by (cases a)
      note c = Some [unfolded a]
      have shorter: "length (script (sleep d v)) < length (script w)"
        if "length (script v) \<le> length (script w1)" for d v
        using that call_script [OF c] by (simp add: sleep_def)
      show ?thesis
      proof (cases "raised r")
        case (Some e)
        show ?thesis
          by (rule failed [OF run c Some]) (rule IH, rule shorter, simp)
      next
        case ok: None
        show ?thesis
        proof (cases "r = StarGiftsNotModified")
          case True
          show ?thesis
            by (rule not_modified [OF run c [unfolded True]]) (rule IH, rule shorter, simp)
        next
          case nm: False
          show ?thesis
          proof (cases "attr_gifts r = []")
            case True
            show ?thesis
              by (rule empty [OF run c ok nm True]) (rule IH, rule shorter, simp)
          next
            case ne: False
            show ?thesis
            proof (cases "ending (buy_loop cfg to_peer (candidates_of cfg (attr_gifts r)) w1)")
              case Fallthrough
              show ?thesis
                by (rule fallthrough [OF run c ok nm ne Fallthrough])
                  (rule IH, rule shorter, rule buy_loop_script)
            next
              case (Return out)
              show ?thesis
                by (rule returned [OF run c ok nm ne Return])
            qed
          qed
        qed
      qed
    qed
  qed
qed

lemma run_shape:
  "(\<exists>conn st to_peer w3. raised conn = None \<and> raised st = None \<and> raised to_peer = None
       \<and> run api cfg w = emit (preamble cfg conn st to_peer) (poll_loop cfg to_peer 0 w3))
   \<or> (ending (run api cfg w) \<noteq> Purchased \<and> ending (run api cfg w) \<noteq> Cancelled
       \<and> list_all preparatory (events (run api cfg w)))"
  by (auto simp: run_def preamble_def emit_def finish_def split: option.splits)

section \<open>A purchase ends the run\<close>

lemma sealed_Cons: "sealed (e # es) = (if bought e then (\<exists>fid peer gid res. e = Called (SendStarsFormRequest fid peer gid) res \<and> bought_log gid es) else sealed es)"
  by (cases "(e # es)" rule: sealed.cases) auto

lemma sealed_append: "\<forall>e \<in> set es. \<not> bought e \<Longrightarrow> sealed (es @ es') = sealed es'"
  by (induction es) (auto simp: sealed_Cons)

lemma bought_log_iff: "bought_log gid es = (\<exists>p. es = [Logged (LogBought gid p)])"
  by (cases "(gid, es)" rule: bought_log.cases) auto

lemma sealed_split:
  "sealed es \<Longrightarrow> es = pre @ Called (SendStarsFormRequest fid peer gid) res # post \<Longrightarrow> raised res = None
     \<Longrightarrow> (\<exists>p. post = [Logged (LogBought gid p)]) \<and> (\<forall>e \<in> set pre. \<not> bought e)"
proof (induction pre arbitrary: es)
  case Nil
  then show ?case by (simp add: bought_log_iff)
next
  case (Cons a pre)
  have rest: "sealed (pre @ Called (SendStarsFormRequest fid peer gid) res # post) \<and> \<not> bought a"
  proof (cases "bought a")
    case True
    with Cons.prems obtain g where "bought_log g (pre @ Called (SendStarsFormRequest fid peer gid) res # post)"
      by (auto simp: sealed_Cons)
    then show ?thesis
      by (auto simp: bought_log_iff append_eq_Cons_conv)
  next
    case False
    with Cons.prems show ?thesis by (simp add: sealed_Cons)
  qed
  with Cons.IH [OF _ refl Cons.prems(3)] show ?case by simp
qed

lemma buy_loop_sealed:
  "sealed (events (buy_loop cfg to_peer cs w))
   \<and> ((\<exists>e \<in> set (events (buy_loop cfg to_peer cs w)). bought e) = (ending (buy_loop cfg to_peer cs w) = Return Purchased))"
proof (induction cs arbitrary: w)
  case Nil
  show ?case by simp
next
  case (Cons c cs)
  obtain p g where c: "c = (p, g)" by (cases c)
  show ?case
    unfolding c using Cons.IH
    by (auto simp: Let_def split: option.splits)
qed

lemma poll_loop_sealed:
  "sealed (events (poll_loop cfg to_peer h w))
   \<and> ((\<exists>e \<in> set (events (poll_loop cfg to_peer h w)). bought e) \<longrightarrow> ending (poll_loop cfg to_peer h w) = Purchased)"
proof (induction h w rule: poll_loop_induct [where cfg = cfg and to_peer = to_peer])
  case (returned h w r w1 out)
  then show ?case
    using buy_loop_sealed [of cfg to_peer "candidates_of cfg (attr_gifts r)" w1]
    by (auto simp: poll_returned)
next
  case (fallthrough h w r w1)
  then show ?case
    using buy_loop_sealed [of cfg to_peer "candidates_of cfg (attr_gifts r)" w1]
    by (auto simp: poll_fallthrough sealed_append)
qed (simp_all add: poll_stopped poll_starved poll_failed poll_not_modified poll_empty)

lemma preparatory_not_bought: "preparatory e \<Longrightarrow> \<not> bought e"
  by (cases e rule: preparatory.cases) auto

lemma run_sealed:
  "sealed (events (run api cfg w))
   \<and> ((\<exists>e \<in> set (events (run api cfg w)). bought e) \<longrightarrow> ending (run api cfg w) = Purchased)"
proof -
  consider (loop) conn st to_peer w3 where
      "run api cfg w = emit (preamble cfg conn st to_peer) (poll_loop cfg to_peer 0 w3)"
    | (early) "list_all preparatory (events (run api cfg w))"
    using run_shape [of api cfg w] by blast
  then show ?thesis
  proof cases
    case loop
    have "\<forall>e \<in> set (preamble cfg conn st to_peer). \<not> bought e"
      by (simp add: preamble_def)
    then show ?thesis
      using poll_loop_sealed [of cfg to_peer 0 w3]
      by (auto simp: loop sealed_append)
  next
    case early
    then have quiet: "\<forall>e \<in> set (events (run api cfg w)). \<not> bought e"
      by (auto simp: list_all_iff preparatory_not_bought)
    then have "sealed (events (run api cfg w) @ [])"
      by (subst sealed_append) simp_all
    with quiet show ?thesis by simp
  qed
qed

text \<open>
  Claim C2. In every run, a payment submission that returns is followed by the success log
  line and by nothing else: the run ends as purchased, with no further catalog request and
  no further purchase attempt, whatever candidates remain. No earlier submission of the
  run had returned.
\<close>

theorem purchase_ends_run:
  assumes "events (run api cfg w) = pre @ Called (SendStarsFormRequest fid to_peer gid) res # post"
    and "raised res = None"
  shows "(\<exists>p. post = [Logged (LogBought gid p)])
    \<and> ending (run api cfg w) = Purchased
    \<and> (\<forall>e \<in> set pre. \<not> bought e)"
proof -
  have "bought (Called (SendStarsFormRequest fid to_peer gid) res)"
    using assms(2) by simp
  then have "\<exists>e \<in> set (events (run api cfg w)). bought e"
    unfolding assms(1) by (metis in_set_conv_decomp)
  then have "ending (run api cfg w) = Purchased"
    using run_sealed [of api cfg w] by blast
  moreover have "sealed (events (run api cfg w))"
    using run_sealed [of api cfg w] by blast
  ultimately show ?thesis
    using sealed_split [OF _ assms] by blast
qed

text \<open>
  Two eligible offers, priced 300 and 100, balance 250: the offer priced 100 is bought and
  the other one is never tried.
\<close>

theorem purchase_ends_run_witness:
  "events (run demo_api demo_cfg (demo_world
       [StarGifts 5 [demo_gift 1 (Some (PyInt 300)), demo_gift 2 (Some (PyInt 100))],
        demo_balance 250, PaymentFormStarGift 9, PaymentResult] None))
     = (preamble demo_cfg Connected (demo_balance 250) (InputPeer 7)
        @ [Called (GetStarGiftsRequest 0)
             (StarGifts 5 [demo_gift 1 (Some (PyInt 300)), demo_gift 2 (Some (PyInt 100))]),
           Called GetStarsStatusRequest (demo_balance 250),
           Called (GetPaymentFormRequest (InputPeer 7) 2) (PaymentFormStarGift 9)])
       @ Called (SendStarsFormRequest 9 (InputPeer 7) 2) PaymentResult # [Logged (LogBought 2 100)]
   \<and> raised PaymentResult = None
   \<and> ending (run demo_api demo_cfg (demo_world
       [StarGifts 5 [demo_gift 1 (Some (PyInt 300)), demo_gift 2 (Some (PyInt 100))],
        demo_balance 250, PaymentFormStarGift 9, PaymentResult] None)) = Purchased"
proof -
  have ev: "events (run demo_api demo_cfg (demo_world
       [StarGifts 5 [demo_gift 1 (Some (PyInt 300)), demo_gift 2 (Some (PyInt 100))],
        demo_balance 250, PaymentFormStarGift 9, PaymentResult] None))
     = (preamble demo_cfg Connected (demo_balance 250) (InputPeer 7)
        @ [Called (GetStarGiftsRequest 0)
             (StarGifts 5 [demo_gift 1 (Some (PyInt 300)), demo_gift 2 (Some (PyInt 100))]),
           Called GetStarsStatusRequest (demo_balance 250),
           Called (GetPaymentFormRequest (InputPeer 7) 2) (PaymentFormStarGift 9)])
       @ Called (SendStarsFormRequest 9 (InputPeer 7) 2) PaymentResult # [Logged (LogBought 2 100)]"
    by code_simp
  have ok: "raised PaymentResult = None"
    by simp
  show ?thesis
    using purchase_ends_run [OF ev ok] ev ok by simp
qed

section \<open>The continuation token\<close>

lemma waits_then_repolls_iff:
  "waits_then_repolls d h es =
     (es = [Slept d] \<or> (\<exists>r es'. es = Slept d # Called (GetStarGiftsRequest h) r # es'))"
  by (cases "(d, h, es)" rule: waits_then_repolls.cases) auto

lemma unmoved_Cons:
  "unmoved d (e # es) =
     ((\<forall>h. e = Called (GetStarGiftsRequest h) StarGiftsNotModified \<longrightarrow> waits_then_repolls d h es)
      \<and> unmoved d es)"
  by (cases "(d, e # es)" rule: unmoved.cases) auto

lemma unmoved_append: "\<forall>e \<in> set es. \<not> is_poll e \<Longrightarrow> unmoved d (es @ es') = unmoved d es'"
  by (induction es) (auto simp: unmoved_Cons)

lemma unmoved_split:
  "unmoved d es \<Longrightarrow> es = pre @ Called (GetStarGiftsRequest h) StarGiftsNotModified # post
     \<Longrightarrow> waits_then_repolls d h post"
  by (induction pre arbitrary: es) (auto simp: unmoved_Cons)

lemma buy_loop_no_poll: "\<forall>e \<in> set (events (buy_loop cfg to_peer cs w)). \<not> is_poll e"
proof (induction cs arbitrary: w)
  case Nil
  show ?case by simp
next
  case (Cons c cs)
  obtain p g where c: "c = (p, g)" by (cases c)
  show ?case
    unfolding c using Cons.IH
    by (auto simp: Let_def split: option.splits)
qed

lemma poll_loop_head:
  "events (poll_loop cfg to_peer h w) = []
   \<or> (\<exists>r es. events (poll_loop cfg to_peer h w) = Called (GetStarGiftsRequest h) r # es)"
  by (subst (1 2) poll_loop.simps) (auto simp: Let_def split: option.splits leave.splits)

lemma repoll_after_wait:
  "waits_then_repolls d h (Slept d # events (poll_loop cfg to_peer h w))"
  using poll_loop_head [of cfg to_peer h w] by auto

lemma poll_loop_unmoved: "unmoved (nat (poll_interval cfg)) (events (poll_loop cfg to_peer h w))"
proof (induction h w rule: poll_loop_induct [where cfg = cfg and to_peer = to_peer])
  case (not_modified h w w1)
  then show ?case
    by (simp add: poll_not_modified repoll_after_wait)
next
  case (returned h w r w1 out)
  then show ?case
    using unmoved_append [OF buy_loop_no_poll, of _ cfg to_peer _ _ "[]"]
    by (simp add: poll_returned unmoved_Cons)
next
  case (fallthrough h w r w1)
  then show ?case
    by (simp add: poll_fallthrough unmoved_Cons unmoved_append [OF buy_loop_no_poll])
qed (auto simp: poll_stopped poll_starved poll_failed poll_empty unmoved_Cons)

lemma preparatory_not_poll: "preparatory e \<Longrightarrow> \<not> is_poll e"
  by (cases e rule: preparatory.cases) auto

lemma run_unmoved: "unmoved (nat (poll_interval cfg)) (events (run api cfg w))"
proof -
  consider (loop) conn st to_peer w3 where
      "run api cfg w = emit (preamble cfg conn st to_peer) (poll_loop cfg to_peer 0 w3)"
    | (early) "list_all preparatory (events (run api cfg w))"
    using run_shape [of api cfg w] by blast
  then show ?thesis
  proof cases
    case loop
    have "\<forall>e \<in> set (preamble cfg conn st to_peer). \<not> is_poll e"
      by (simp add: preamble_def)
    then show ?thesis
      using poll_loop_unmoved [of cfg to_peer 0 w3]
      by (simp add: loop unmoved_append)
  next
    case early
    then have "\<forall>e \<in> set (events (run api cfg w)). \<not> is_poll e"
      by (auto simp: list_all_iff preparatory_not_poll)
    then have "unmoved (nat (poll_interval cfg)) (events (run api cfg w) @ [])"
      by (subst unmoved_append) simp_all
    then show ?thesis by simp
  qed
qed

text \<open>
  Claim C9. In every run, a "not modified" answer to a catalog request is followed
  directly by a wait of one poll interval and then, if the run goes on, by a catalog
  request that carries the same token: no balance read and no purchase step in between,
  and the token unchanged.
\<close>

theorem not_modified_keeps_token:
  assumes "events (run api cfg w) = pre @ Called (GetStarGiftsRequest h) StarGiftsNotModified # post"
  shows "post = [Slept (nat (poll_interval cfg))]
    \<or> (\<exists>r post'. post = Slept (nat (poll_interval cfg)) # Called (GetStarGiftsRequest h) r # post')"
  using unmoved_split [OF run_unmoved assms] by (simp add: waits_then_repolls_iff)

text \<open>
  Two "not modified" answers in a row.
\<close>

theorem not_modified_keeps_token_witness:
  "events (run demo_api demo_cfg (demo_world [StarGiftsNotModified, StarGiftsNotModified] None))
     = preamble demo_cfg Connected (demo_balance 250) (InputPeer 7)
       @ Called (GetStarGiftsRequest 0) StarGiftsNotModified
       # [Slept 15, Called (GetStarGiftsRequest 0) StarGiftsNotModified, Slept 15]
   \<and> nat (poll_interval demo_cfg) = 15"
proof -
  have ev: "events (run demo_api demo_cfg (demo_world [StarGiftsNotModified, StarGiftsNotModified] None))
     = preamble demo_cfg Connected (demo_balance 250) (InputPeer 7)
       @ Called (GetStarGiftsRequest 0) StarGiftsNotModified
       # [Slept 15, Called (GetStarGiftsRequest 0) StarGiftsNotModified, Slept 15]"
    by code_simp
  show ?thesis
    using not_modified_keeps_token [OF ev] ev by (simp add: demo_cfg_def)
qed

lemma threaded_Cons:
  "threaded d (e # es) =
     ((\<forall>h r. e = Called (GetStarGiftsRequest h) r \<and> raised r = None \<and> r \<noteq> StarGiftsNotModified \<longrightarrow>
         (next_poll es = None \<or> next_poll es = Some (attr_hash r))
         \<and> (attr_gifts r = [] \<longrightarrow> waits_then_repolls d (attr_hash r) es))
      \<and> threaded d es)"
  by (cases "(d, e # es)" rule: threaded.cases) auto

lemma next_poll_Cons: "\<not> is_poll e \<Longrightarrow> next_poll (e # es) = next_poll es"
  by (cases "e # es" rule: next_poll.cases) auto

lemma next_poll_append: "\<forall>e \<in> set es. \<not> is_poll e \<Longrightarrow> next_poll (es @ es') = next_poll es'"
  by (induction es) (auto simp: next_poll_Cons)

lemma threaded_append: "\<forall>e \<in> set es. \<not> is_poll e \<Longrightarrow> threaded d (es @ es') = threaded d es'"
  by (induction es) (auto simp: threaded_Cons)

lemma threaded_split:
  "threaded d es \<Longrightarrow> es = pre @ Called (GetStarGiftsRequest h) r # post \<Longrightarrow> raised r = None
     \<Longrightarrow> r \<noteq> StarGiftsNotModified
     \<Longrightarrow> (next_poll post = None \<or> next_poll post = Some (attr_hash r))
        \<and> (attr_gifts r = [] \<longrightarrow> waits_then_repolls d (attr_hash r) post)"
  by (induction pre arbitrary: es) (auto simp: threaded_Cons)

lemma poll_loop_next:
  "next_poll (events (poll_loop cfg to_peer h w)) = None
   \<or> next_poll (events (poll_loop cfg to_peer h w)) = Some h"
  using poll_loop_head [of cfg to_peer h w] by auto

lemma poll_loop_threaded: "threaded (nat (poll_interval cfg)) (events (poll_loop cfg to_peer h w))"
proof (induction h w rule: poll_loop_induct [where cfg = cfg and to_peer = to_peer])
  case (empty h w r w1)
  then show ?case
    using poll_loop_next [of cfg to_peer "attr_hash r" "sleep (nat (poll_interval cfg)) w1"]
    by (simp add: poll_empty repoll_after_wait)
next
  case (returned h w r w1 out)
  then show ?case
    using threaded_append [OF buy_loop_no_poll, of _ cfg to_peer _ _ "[]"]
      next_poll_append [OF buy_loop_no_poll, of cfg to_peer _ _ "[]"]
    by (simp add: poll_returned)
next
  case (fallthrough h w r w1)
  then show ?case
    using poll_loop_next [of cfg to_peer "attr_hash r"]
    by (simp add: poll_fallthrough threaded_append [OF buy_loop_no_poll]
        next_poll_append [OF buy_loop_no_poll])
qed (auto simp: poll_stopped poll_starved poll_failed poll_not_modified)

lemma run_threaded: "threaded (nat (poll_interval cfg)) (events (run api cfg w))"
proof -
  consider (loop) conn st to_peer w3 where
      "run api cfg w = emit (preamble cfg conn st to_peer) (poll_loop cfg to_peer 0 w3)"
    | (early) "list_all preparatory (events (run api cfg w))"
    using run_shape [of api cfg w] by blast
  then show ?thesis
  proof cases
    case loop
    have "\<forall>e \<in> set (preamble cfg conn st to_peer). \<not> is_poll e"
      by (simp add: preamble_def)
    then show ?thesis
      using poll_loop_threaded [of cfg to_peer 0 w3]
      by (simp add: loop threaded_append)
  next
    case early
    then have "\<forall>e \<in> set (events (run api cfg w)). \<not> is_poll e"
      by (auto simp: list_all_iff preparatory_not_poll)
    then have "threaded (nat (poll_interval cfg)) (events (run api cfg w) @ [])"
      by (subst threaded_append) simp_all
    then show ?thesis by simp
  qed
qed

text \<open>
  Claim C5, amended. When a catalog answer holds an empty offer list, the loop waits one
  poll interval and polls again without evaluating anything, and the request that follows
  carries the token of that answer. The token is taken from every answer that is neither a
  failure nor "not modified", before the list is looked at: the next catalog request, if
  there is one, always carries it.
\<close>

theorem empty_list_moves_token:
  assumes "events (run api cfg w) = pre @ Called (GetStarGiftsRequest h) r # post"
    and "raised r = None" and "r \<noteq> StarGiftsNotModified"
  shows "(attr_gifts r = [] \<longrightarrow>
            post = [Slept (nat (poll_interval cfg))]
            \<or> (\<exists>r' post'. post = Slept (nat (poll_interval cfg))
                  # Called (GetStarGiftsRequest (attr_hash r)) r' # post'))
    \<and> (next_poll post = None \<or> next_poll post = Some (attr_hash r))"
  using threaded_split [OF run_threaded assms] by (simp add: waits_then_repolls_iff)

text \<open>
  Claim C5 as stated fails: an answer with token 7 and an empty list moves the token from
  0 to 7.
\<close>

theorem empty_list_moves_token_counterexample:
  "events (run demo_api demo_cfg (demo_world [StarGifts 7 [], StarGiftsNotModified] None))
     = preamble demo_cfg Connected (demo_balance 250) (InputPeer 7)
       @ [Called (GetStarGiftsRequest 0) (StarGifts 7 []), Slept 15,
          Called (GetStarGiftsRequest 7) StarGiftsNotModified, Slept 15]"
  by code_simp

text \<open>
  The same run as an instance of the amended claim.
\<close>

theorem empty_list_moves_token_witness:
  "events (run demo_api demo_cfg (demo_world [StarGifts 7 [], StarGiftsNotModified] None))
     = preamble demo_cfg Connected (demo_balance 250) (InputPeer 7)
       @ Called (GetStarGiftsRequest 0) (StarGifts 7 [])
       # [Slept 15, Called (GetStarGiftsRequest 7) StarGiftsNotModified, Slept 15]
   \<and> attr_gifts (StarGifts 7 []) = [] \<and> attr_hash (StarGifts 7 []) = 7
   \<and> next_poll [Slept 15, Called (GetStarGiftsRequest 7) StarGiftsNotModified, Slept 15] = Some 7"
proof -
  have ev: "events (run demo_api demo_cfg (demo_world [StarGifts 7 [], StarGiftsNotModified] None))
     = preamble demo_cfg Connected (demo_balance 250) (InputPeer 7)
       @ Called (GetStarGiftsRequest 0) (StarGifts 7 [])
       # [Slept 15, Called (GetStarGiftsRequest 7) StarGiftsNotModified, Slept 15]"
    by code_simp
  have ok: "raised (StarGifts 7 []) = None" "StarGifts 7 [] \<noteq> StarGiftsNotModified"
    by simp_all
  show ?thesis
    using empty_list_moves_token [OF ev ok] ev by simp
qed

section \<open>The balance read before each purchase decision\<close>

lemma batch_of_quiet: "\<not> is_poll e \<Longrightarrow> batch_of cfg e batch = batch"
  by (cases "(cfg, e, batch)" rule: batch_of.cases) auto

lemma gate_ok_preparatory: "preparatory e \<Longrightarrow> gate_ok batch prev e"
  by (cases e rule: preparatory.cases) auto

lemma gated_split:
  "gated cfg batch prev (pre @ e # post)
     \<Longrightarrow> gate_ok (fold (batch_of cfg) pre batch) (last_event prev pre) e"
  by (induction pre arbitrary: batch prev) auto

lemma last_event_snoc: "last_event prev pre = Some e \<Longrightarrow> prev = None \<Longrightarrow> \<exists>pre'. pre = pre' @ [e]"
proof -
  have "last_event prev pre = (if pre = [] then prev else Some (last pre))" for prev
    by (induction pre arbitrary: prev) auto
  then show "last_event prev pre = Some e \<Longrightarrow> prev = None \<Longrightarrow> \<exists>pre'. pre = pre' @ [e]"
    by (metis append_butlast_last_id option.distinct(1) option.inject)
qed

lemma fresh_balance_Some:
  "fresh_balance prev = Some b \<Longrightarrow>
     \<exists>st. prev = Some (Called GetStarsStatusRequest st) \<and> raised st = None \<and> b = stars_value (attr_balance st)"
  by (cases prev rule: fresh_balance.cases) (auto split: if_splits)

lemma buy_loop_gated:
  "set cs \<subseteq> set batch \<Longrightarrow> (\<And>prev'. gated cfg batch prev' rest)
     \<Longrightarrow> gated cfg batch prev (events (buy_loop cfg to_peer cs w) @ rest)"
proof (induction cs arbitrary: w prev)
  case Nil
  then show ?case by simp
next
  case (Cons c cs)
  obtain p g where c: "c = (p, g)" by (cases c)
  have sub: "set cs \<subseteq> set batch" and mem: "(p, g) \<in> set batch"
    using Cons.prems(1) by (auto simp: c)
  note IH = Cons.IH [OF sub Cons.prems(2)]
  have afford: "\<not> insufficient b p \<Longrightarrow> list_ex (\<lambda>c. gift_id (snd c) = gift_id g \<and> fst c \<le> b) batch" for b
    using mem by (force simp: list_ex_iff insufficient_def)
  show ?case
    unfolding c using IH Cons.prems(2)
    by (auto simp: Let_def afford insufficient_def split: option.splits)
qed

lemma poll_loop_gated: "\<forall>batch prev. gated cfg batch prev (events (poll_loop cfg to_peer h w))"
proof (induction h w rule: poll_loop_induct [where cfg = cfg and to_peer = to_peer])
  case (returned h w r w1 out)
  then show ?case
    using buy_loop_gated [of "candidates_of cfg (attr_gifts r)" "candidates_of cfg (attr_gifts r)" cfg "[]"]
    by (simp add: poll_returned)
next
  case (fallthrough h w r w1)
  then show ?case
    using buy_loop_gated [of "candidates_of cfg (attr_gifts r)" "candidates_of cfg (attr_gifts r)" cfg
        "Slept (nat (poll_interval cfg)) # events (poll_loop cfg to_peer (attr_hash r)
          (sleep (nat (poll_interval cfg)) (final (buy_loop cfg to_peer (candidates_of cfg (attr_gifts r)) w1))))"]
    by (simp add: poll_fallthrough)
qed (auto simp: poll_stopped poll_starved poll_failed poll_not_modified poll_empty)

lemma preparatory_gated: "list_all preparatory es \<Longrightarrow> gated cfg batch prev es"
proof (induction es arbitrary: batch prev)
  case Nil
  show ?case by simp
next
  case (Cons e es)
  then have "gate_ok batch prev e"
    by (simp add: gate_ok_preparatory)
  with Cons show ?case by simp
qed

lemma run_gated: "gated cfg [] None (events (run api cfg w))"
proof -
  consider (loop) conn st to_peer w3 where
      "run api cfg w = emit (preamble cfg conn st to_peer) (poll_loop cfg to_peer 0 w3)"
    | (early) "list_all preparatory (events (run api cfg w))"
    using run_shape [of api cfg w] by blast
  then show ?thesis
  proof cases
    case loop
    then show ?thesis
      using poll_loop_gated [of cfg to_peer 0 w3]
      by (simp add: preamble_def)
  next
    case early
    then show ?thesis by (rule preparatory_gated)
  qed
qed



section \<open>Cancellation and the poll-interval wait\<close>

lemma call_stop_at: "call w = Some (r, w') \<Longrightarrow> stop_at w' = stop_at w"
  by (auto simp: call_def split: list.splits)

lemma buy_loop_stop_at: "stop_at (final (buy_loop cfg to_peer cs w)) = stop_at w"
proof (induction cs arbitrary: w)
  case Nil
  show ?case by simp
next
  case (Cons c cs)
  obtain p g where c: "c = (p, g)" by (cases c)
  show ?case
    unfolding c using Cons.IH
    by (auto simp: Let_def split: option.splits dest!: call_stop_at)
qed

lemma wait_cancelled:
  "stop_at v = Some t \<Longrightarrow> t \<le> clock v + d
     \<Longrightarrow> poll_loop cfg to_peer h (sleep d v) = finish Cancelled (v\<lparr>clock := clock v + d\<rparr>)"
  by (subst poll_stopped) (simp_all add: is_set_def sleep_def)

text \<open>
  Claim C3, amended. The wait between polls is a plain sleep of one poll interval that a
  stop request does not wake. Take an iteration that reaches its wait: \<open>tried\<close> is its
  candidate loop (which tries nothing after a failed, "not modified" or empty answer) and
  the wait begins in the world it leaves. If the stop request arrives during the wait, the
  wait still runs to its end; the run then ends as cancelled with no further call, at the
  end of that wait, which is less than one poll interval after the request.
\<close>

theorem wait_runs_to_its_end:
  assumes stop: "stop_at w = Some t" and run: "\<not> is_set w"
    and resp: "script w = (lat, r) # rest"
    and tried: "tried = buy_loop cfg to_peer (candidates_of cfg (attr_gifts r))
                  (w\<lparr>script := rest, clock := clock w + lat\<rparr>)"
    and falls: "ending tried = Fallthrough"
    and during: "clock (final tried) < t" "t \<le> clock (final tried) + nat (poll_interval cfg)"
  shows "ending (poll_loop cfg to_peer h w) = Cancelled
    \<and> final (poll_loop cfg to_peer h w)
        = (final tried)\<lparr>clock := clock (final tried) + nat (poll_interval cfg)\<rparr>
    \<and> (\<exists>es. events (poll_loop cfg to_peer h w) = es @ [Slept (nat (poll_interval cfg))])
    \<and> clock (final (poll_loop cfg to_peer h w)) - t < nat (poll_interval cfg)"
proof -
  let ?d = "nat (poll_interval cfg)"
  let ?w1 = "w\<lparr>script := rest, clock := clock w + lat\<rparr>"
  have c: "call w = Some (r, ?w1)"
    using resp by (simp add: call_def)
  have stop1: "stop_at ?w1 = Some t"
    using stop by simp
  have stopv: "stop_at (final tried) = Some t"
    using stop1 by (simp add: tried buy_loop_stop_at)
  have cancel: "poll_loop cfg to_peer h' (sleep ?d (final tried))
      = finish Cancelled ((final tried)\<lparr>clock := clock (final tried) + ?d\<rparr>)" for h'
    using stopv during(2) by (rule wait_cancelled)
  have idle: "attr_gifts r = [] \<Longrightarrow> final tried = ?w1"
    by (simp add: tried candidates_of_def)
  have "ending (poll_loop cfg to_peer h w) = Cancelled
    \<and> final (poll_loop cfg to_peer h w) = (final tried)\<lparr>clock := clock (final tried) + ?d\<rparr>
    \<and> (\<exists>es. events (poll_loop cfg to_peer h w) = es @ [Slept ?d])"
  proof (cases "raised r")
    case (Some e)
    then have "attr_gifts r = []" by (cases r) auto
    then have v: "final tried = ?w1" by (rule idle)
    show ?thesis
      using cancel [of h] by (simp add: v poll_failed [OF run c Some])
  next
    case ok: None
    show ?thesis
    proof (cases "r = StarGiftsNotModified")
      case True
      then have "attr_gifts r = []" by simp
      then have v: "final tried = ?w1" by (rule idle)
      show ?thesis
        using cancel [of h] by (simp add: v poll_not_modified [OF run c [unfolded True]])
    next
      case nm: False
      show ?thesis
      proof (cases "attr_gifts r = []")
        case True
        then have v: "final tried = ?w1" by (rule idle)
        show ?thesis
          using cancel [of "attr_hash r"] by (simp add: v poll_empty [OF run c ok nm True])
      next
        case False
        show ?thesis
          using cancel [of "attr_hash r"]
          by (simp add: poll_fallthrough [OF run c ok nm False falls [unfolded tried]] tried)
      qed
    qed
  qed
  then show ?thesis
    using during by auto
qed

text \<open>
  Claim C3 as stated fails: with a poll interval of 15 and every call answered at once, a
  stop request at time 1 falls into the wait that began at time 0, and the run ends at
  time 15, not at time 1.
\<close>

theorem wait_runs_to_its_end_counterexample:
  "events (run demo_api demo_cfg (demo_world [StarGiftsNotModified] (Some 1)))
     = preamble demo_cfg Connected (demo_balance 250) (InputPeer 7)
       @ [Called (GetStarGiftsRequest 0) StarGiftsNotModified, Slept 15]
   \<and> ending (run demo_api demo_cfg (demo_world [StarGiftsNotModified] (Some 1))) = Cancelled
   \<and> final (run demo_api demo_cfg (demo_world [StarGiftsNotModified] (Some 1)))
       = \<lparr>script = [], clock = 15, stop_at = Some 1\<rparr>"
  by code_simp

text \<open>
  A wait from time 12 to 27 with a stop request at time 20.
\<close>

theorem wait_runs_to_its_end_witness:
  "ending (poll_loop demo_cfg (InputPeer 7) 0
      \<lparr>script = [(2, StarGiftsNotModified)], clock = 10, stop_at = Some 20\<rparr>) = Cancelled
   \<and> final (poll_loop demo_cfg (InputPeer 7) 0
      \<lparr>script = [(2, StarGiftsNotModified)], clock = 10, stop_at = Some 20\<rparr>)
       = \<lparr>script = [], clock = 27, stop_at = Some 20\<rparr>"
proof -
  let ?w = "\<lparr>script = [(2, StarGiftsNotModified)], clock = 10, stop_at = Some 20\<rparr>"
  let ?tried = "buy_loop demo_cfg (InputPeer 7) (candidates_of demo_cfg (attr_gifts StarGiftsNotModified))
                  (?w\<lparr>script := [], clock := clock ?w + 2\<rparr>)"
  have stop: "stop_at ?w = Some 20" and go: "\<not> is_set ?w"
    and resp: "script ?w = (2, StarGiftsNotModified) # []"
    by (simp_all add: is_set_def)
  have falls: "ending ?tried = Fallthrough"
    and during: "clock (final ?tried) < 20" "20 \<le> clock (final ?tried) + nat (poll_interval demo_cfg)"
    by (simp_all add: candidates_of_def demo_cfg_def)
  show ?thesis
    using wait_runs_to_its_end [OF stop go resp refl falls during, where h = 0]
    by (simp add: candidates_of_def demo_cfg_def)
qed

section \<open>Failures of platform calls\<close>

text \<open>
  Claim C6, amended. When the first balance request is rejected with
  \<^verbatim>\<open>AuthKeyUnregisteredError\<close>, the run logs that authorization is needed, opens the
  client session a second time (the source does so to force the library's login flow
  within the run), logs that authorization is done and that a restart is needed, and
  ends. It sends no catalog request and takes no purchase step.
\<close>

theorem auth_rejection_ends_run:
  assumes creds: "api_id api \<noteq> 0" "api_hash api \<noteq> []"
    and script: "script w = (d0, conn) # (d1, Raises AuthKeyUnregisteredError) # rest"
    and conn: "raised conn = None"
  shows "events (run api cfg w)
      = [Called (OpenClient (session cfg)) conn,
         Called GetStarsStatusRequest (Raises AuthKeyUnregisteredError),
         Logged LogAuthNeeded]
        @ (case rest of
             [] \<Rightarrow> []
           | (d2, conn2) # rest' \<Rightarrow>
               Called (OpenClient (session cfg)) conn2
                 # (case raised conn2 of None \<Rightarrow> [Logged LogAuthDone] | Some e \<Rightarrow> []))
    \<and> ending (run api cfg w)
      = (case rest of
           [] \<Rightarrow> Starved
         | (d2, conn2) # rest' \<Rightarrow> (case raised conn2 of None \<Rightarrow> LoginRequired | Some e \<Rightarrow> Raised e))
    \<and> list_all (\<lambda>e. \<not> is_poll e \<and> \<not> purchase_step e) (events (run api cfg w))"
  using assms
  by (auto simp: run_def call_def split: list.splits option.splits)

text \<open>
  Claim C6 as stated fails: after the rejection the run opens the client again, the
  in-process login that the claim excludes.
\<close>

theorem login_flow_counterexample:
  "events (run demo_api demo_cfg
      \<lparr>script = [(0, Connected), (0, Raises AuthKeyUnregisteredError), (0, Connected)],
         clock = 0, stop_at = None\<rparr>)
     = [Called (OpenClient (session demo_cfg)) Connected,
        Called GetStarsStatusRequest (Raises AuthKeyUnregisteredError),
        Logged LogAuthNeeded,
        Called (OpenClient (session demo_cfg)) Connected,
        Logged LogAuthDone]"
  by code_simp

text \<open>
  The same script as an instance of the amended claim.
\<close>

theorem auth_rejection_ends_run_witness:
  "events (run demo_api demo_cfg
      \<lparr>script = [(0, Connected), (0, Raises AuthKeyUnregisteredError), (0, Connected)],
         clock = 0, stop_at = None\<rparr>)
     = [Called (OpenClient (session demo_cfg)) Connected,
        Called GetStarsStatusRequest (Raises AuthKeyUnregisteredError),
        Logged LogAuthNeeded,
        Called (OpenClient (session demo_cfg)) Connected,
        Logged LogAuthDone]
   \<and> ending (run demo_api demo_cfg
      \<lparr>script = [(0, Connected), (0, Raises AuthKeyUnregisteredError), (0, Connected)],
         clock = 0, stop_at = None\<rparr>) = LoginRequired"
proof -
  let ?w = "\<lparr>script = [(0, Connected), (0, Raises AuthKeyUnregisteredError), (0, Connected)],
         clock = 0, stop_at = None\<rparr>"
  have creds: "api_id demo_api \<noteq> 0" "api_hash demo_api \<noteq> []"
    by (simp_all add: demo_api_def)
  have script: "script ?w = (0, Connected) # (0, Raises AuthKeyUnregisteredError) # [(0, Connected)]"
    by simp
  have conn: "raised Connected = None"
    by simp
  show ?thesis
    using auth_rejection_ends_run [OF creds script conn, of demo_cfg] by simp
qed

text \<open>
  Claim C4 does not hold of the source. A failure of the catalog request is logged and
  retried after the wait, and a failure of the form request or of the submission is
  logged before the next candidate; but the balance read inside the candidate loop has no
  handler. When it raises, the exception leaves \<^verbatim>\<open>run\<close>: nothing is logged, there
  is no wait and no retry, and the script's next answer is never asked for.
\<close>

theorem balance_failure_ends_run:
  "run demo_api demo_cfg (demo_world
      [StarGifts 5 [demo_gift 1 (Some (PyInt 100))], Raises (OtherException ''timeout''),
       StarGiftsNotModified] None)
     = \<lparr>events = preamble demo_cfg Connected (demo_balance 250) (InputPeer 7)
          @ [Called (GetStarGiftsRequest 0) (StarGifts 5 [demo_gift 1 (Some (PyInt 100))]),
             Called GetStarsStatusRequest (Raises (OtherException ''timeout''))],
        ending = Raised (OtherException ''timeout''),
        final = \<lparr>script = [(0, StarGiftsNotModified)], clock = 0, stop_at = None\<rparr>\<rparr>"
  by code_simp

end
